theory Spec2Isabelle
  imports Complex_Main
begin

section \<open>Numbers\<close>

text \<open>
  The estimators of \<^verbatim>\<open>default_divergence.py\<close> compute with numpy integers (the counts of a
  compact summary) and numpy floats. Counts are modelled as \<open>int\<close>. A float is modelled as
  a real number, or \<open>None\<close> when numpy's value is not a finite number (\<open>inf\<close>, \<open>-inf\<close> or
  \<open>nan\<close>): numpy does not raise on a division by zero or on the logarithm of a non-positive
  number, it returns one of these values (with a warning), and HOL's own \<open>x / 0 = 0\<close> and
  \<open>ln 0 = 0\<close> must not stand in for them. Rounding, overflow and underflow of finite
  values are not modelled: finite arithmetic is exact. A statement that needs a float to
  be finite and positive therefore bounds its inputs so that the double is.

  \<open>None\<close> is absorbing. numpy itself maps a finite value divided by \<open>inf\<close> back to
  \<open>0\<close>, but in \<open>Naive\<close> and \<open>Dirichlet\<close> every quotient goes through \<open>log\<close> and is
  multiplied by its own numerator, which gives \<open>-inf\<close> or \<open>nan\<close> again, and a sum
  with such a term is not finite either. So \<open>None\<close> as a result says that numpy's result
  is not a finite number.
\<close>

type_synonym fl = "real option"

definition fl_int :: "int \<Rightarrow> fl" where
  "fl_int n = Some (of_int n)"

fun fl_add :: "fl \<Rightarrow> fl \<Rightarrow> fl" where
  "fl_add (Some x) (Some y) = Some (x + y)"
| "fl_add _ _ = None"

fun fl_mul :: "fl \<Rightarrow> fl \<Rightarrow> fl" where
  "fl_mul (Some x) (Some y) = Some (x * y)"
| "fl_mul _ _ = None"

fun fl_div :: "fl \<Rightarrow> fl \<Rightarrow> fl" where
  "fl_div (Some x) (Some y) = (if y = 0 then None else Some (x / y))"
| "fl_div _ _ = None"

fun fl_log :: "fl \<Rightarrow> fl" where
  "fl_log (Some x) = (if 0 < x then Some (ln x) else None)"
| "fl_log None = None"

fun fl_sqrt :: "fl \<Rightarrow> fl" where
  "fl_sqrt (Some x) = (if 0 \<le> x then Some (sqrt x) else None)"
| "fl_sqrt None = None"

subsection \<open>numpy arrays\<close>

text \<open>Element-wise operations on one-dimensional arrays of the same length.\<close>

definition arr_add :: "fl list \<Rightarrow> fl list \<Rightarrow> fl list" where
  "arr_add xs ys = map2 fl_add xs ys"

definition arr_mul :: "fl list \<Rightarrow> fl list \<Rightarrow> fl list" where
  "arr_mul xs ys = map2 fl_mul xs ys"

definition arr_div :: "fl list \<Rightarrow> fl list \<Rightarrow> fl list" where
  "arr_div xs ys = map2 fl_div xs ys"

definition arr_log :: "fl list \<Rightarrow> fl list" where
  "arr_log xs = map fl_log xs"

text \<open>An array and a scalar: \<^verbatim>\<open>c * xs\<close>, \<^verbatim>\<open>xs + c\<close>, \<^verbatim>\<open>xs / c\<close>.\<close>

definition scal_mul :: "fl \<Rightarrow> fl list \<Rightarrow> fl list" where
  "scal_mul c xs = map (fl_mul c) xs"

definition int_arr_add_scal :: "int list \<Rightarrow> fl \<Rightarrow> fl list" where
  "int_arr_add_scal ns c = map (\<lambda>n. fl_add (fl_int n) c) ns"

definition int_arr_div_scal :: "int list \<Rightarrow> int \<Rightarrow> fl list" where
  "int_arr_div_scal ns d = map (\<lambda>n. fl_div (fl_int n) (fl_int d)) ns"

definition arr_div_scal :: "fl list \<Rightarrow> fl \<Rightarrow> fl list" where
  "arr_div_scal xs d = map (\<lambda>x. fl_div x d) xs"

text \<open>\<^verbatim>\<open>np.dot(ff, xs)\<close> of an integer array and a float array.\<close>

fun dot :: "int list \<Rightarrow> fl list \<Rightarrow> fl" where
  "dot (f # fs) (x # xs) = fl_add (fl_mul (fl_int f) x) (dot fs xs)"
| "dot _ _ = Some 0"

text \<open>Boolean-mask indexing \<^verbatim>\<open>xs[mask]\<close>.\<close>

fun select :: "bool list \<Rightarrow> 'a list \<Rightarrow> 'a list" where
  "select (m # ms) (x # xs) = (if m then x # select ms xs else select ms xs)"
| "select _ _ = []"

section \<open>The compact summaries\<close>

text \<open>
  Modelled from the spec: the classes \<^verbatim>\<open>Experiment_Compact\<close> and \<^verbatim>\<open>Divergence_Compact\<close>
  come from the module \<^verbatim>\<open>beta_func_multivar\<close>, which is not part of the sources. The
  records hold the fields that the code under study reads, with the meaning that section 3
  of the specification gives them.
\<close>

record Experiment_Compact =
  N :: int
  K :: int
  Kobs :: int
  nn :: "int list"
  ff :: "int list"

record Divergence_Compact =
  compact_A :: Experiment_Compact
  compact_B :: Experiment_Compact
  N_A :: int
  N_B :: int
  K :: int
  nn_A :: "int list"
  nn_B :: "int list"
  ff :: "int list"

text \<open>
  The data-model invariant of a two-experiment summary: the three arrays are parallel,
  counts are not negative, every entry stands for at least one category (the
  multiplicities are the group sizes of \<^verbatim>\<open>Divergence.__init__\<close>), the multiplicities add
  up to the a-priori number of categories and \<open>ff.dot(nn) = N\<close> for both experiments.
\<close>

definition int_dot :: "int list \<Rightarrow> int list \<Rightarrow> int" where
  "int_dot fs ns = sum_list (map2 (*) fs ns)"

definition wf_Divergence_Compact :: "Divergence_Compact \<Rightarrow> bool" where
  "wf_Divergence_Compact c \<longleftrightarrow>
     length (nn_A c) = length (ff c) \<and>
     length (nn_B c) = length (ff c) \<and>
     list_all (\<lambda>f. 0 < f) (ff c) \<and>
     list_all (\<lambda>n. 0 \<le> n) (nn_A c) \<and>
     list_all (\<lambda>n. 0 \<le> n) (nn_B c) \<and>
     sum_list (ff c) = K c \<and>
     int_dot (ff c) (nn_A c) = N_A c \<and>
     int_dot (ff c) (nn_B c) = N_B c"

section \<open>Errors\<close>

text \<open>
  Every \<^verbatim>\<open>raise IOError\<close> of the module is a value. The measure check is written three
  times in the source with the same message (in \<open>switchboard\<close>, in \<open>Naive\<close> and in
  \<open>Dirichlet\<close>); the model keeps the place of the \<^verbatim>\<open>raise\<close>. \<open>TypeError_kwargs\<close> is
  Python's own error for a call with a keyword argument that the callee does not have,
  and \<open>CMW_failure\<close> any exception of the external CMW estimator.
\<close>

datatype raise_site = In_switchboard | In_Naive | In_Dirichlet

datatype error =
    Unknown_unit
  | Bad_measure raise_site
  | CMW_bad_measure
  | Unknown_method
  | TypeError_kwargs
  | CMW_failure

fun is_IOError :: "error \<Rightarrow> bool" where
  "is_IOError Unknown_unit = True"
| "is_IOError (Bad_measure _) = True"
| "is_IOError CMW_bad_measure = True"
| "is_IOError Unknown_method = True"
| "is_IOError TypeError_kwargs = False"
| "is_IOError CMW_failure = False"

section \<open>The estimators\<close>

definition Naive :: "Divergence_Compact \<Rightarrow> string \<Rightarrow> error + fl" where
  "Naive compACT measure' =
    (let gtr0mask = map2 (\<lambda>x y. 0 < x \<and> 0 < y) (nn_A compACT) (nn_B compACT);
         nn_A' = select gtr0mask (nn_A compACT);
         nn_B' = select gtr0mask (nn_B compACT);
         ff' = select gtr0mask (ff compACT);
         hh_A = int_arr_div_scal nn_A' (N_A compACT);
         hh_B = int_arr_div_scal nn_B' (N_B compACT)
     in if measure' = ''Kullback-Leibler'' then
          Inr (dot ff' (arr_mul hh_A (arr_log (arr_div hh_A hh_B))))
        else if measure' = ''Jensen-Shannon'' then
          (let mm_AB = scal_mul (Some (1 / 2)) (arr_add hh_A hh_B)
           in Inr (fl_mul (Some (1 / 2))
                (dot ff' (arr_add (arr_mul hh_A (arr_log (arr_div hh_A mm_AB)))
                                  (arr_mul hh_B (arr_log (arr_div hh_B mm_AB)))))))
        else Inl (Bad_measure In_Naive))"

definition Dirichlet :: "Divergence_Compact \<Rightarrow> fl \<Rightarrow> fl \<Rightarrow> string \<Rightarrow> error + fl" where
  "Dirichlet compACT a b measure' =
    (let nn_A_a = int_arr_add_scal (nn_A compACT) a;
         nn_B_b = int_arr_add_scal (nn_B compACT) b;
         N_A_a = fl_add (fl_int (N_A compACT))
                   (fl_mul a (fl_int (sum_list (ff compACT))));
         N_B_b = fl_add (fl_int (N_B compACT))
                   (fl_mul b (fl_int (sum_list (ff compACT))));
         hh_A_a = arr_div_scal nn_A_a N_A_a;
         hh_B_b = arr_div_scal nn_B_b N_B_b
     in if measure' = ''Kullback-Leibler'' then
          Inr (dot (ff compACT)
                 (arr_mul hh_A_a (arr_log (arr_div hh_A_a hh_B_b))))
        else if measure' = ''Jensen-Shannon'' then
          (let mm_AB_ab = scal_mul (Some (1 / 2)) (arr_add hh_A_a hh_B_b)
           in Inr (fl_mul (Some (1 / 2))
                (dot (ff compACT)
                   (arr_add (arr_mul hh_A_a (arr_log (arr_div hh_A_a mm_AB_ab)))
                            (arr_mul hh_B_b (arr_log (arr_div hh_B_b mm_AB_ab)))))))
        else Inl (Bad_measure In_Dirichlet))"

section \<open>The switchboard\<close>

text \<open>
  \<open>unit_Dict\<close> is the module's table \<^verbatim>\<open>_unit_Dict_\<close>. The argument \<open>unit\<close> is optional in
  the source and defaults to \<^verbatim>\<open>None\<close>, which is not a key of the table.
\<close>

definition unit_Dict :: "string \<rightharpoonup> real" where
  "unit_Dict = [''ln'' \<mapsto> 1, ''log2'' \<mapsto> 1 / ln 2, ''log10'' \<mapsto> 1 / ln 10]"

text \<open>
  \<open>kwargs\<close> holds the names of the extra keyword arguments. The switchboard forwards them
  to \<open>Naive\<close> and \<open>Dirichlet\<close>, which have no parameter besides those the switchboard
  already passes, so that Python refuses the call unless \<open>kwargs\<close> is empty.
\<close>

type_synonym kwargs = "string list"

definition call_kwargs :: "kwargs \<Rightarrow> error + fl \<Rightarrow> error + fl" where
  "call_kwargs kw r = (if kw = [] then r else Inl TypeError_kwargs)"

text \<open>
  The estimator \<^verbatim>\<open>cmw_divergence.CamagliaMoraWalczak\<close> is not part of the sources: it is
  the parameter \<open>CamagliaMoraWalczak\<close>, which returns \<open>None\<close> when the external code
  raises. The counts \<open>Kobs\<close> and \<open>N_A\<close>, \<open>N_B\<close> are numpy integers (\<^verbatim>\<open>obs_n_categ\<close>
  and \<^verbatim>\<open>tot_counts\<close> in \<^verbatim>\<open>estimate.py\<close>), so that \<^verbatim>\<open>1. / Kobs\<close> with \<open>Kobs = 0\<close> is
  the float \<open>inf\<close> and no \<^verbatim>\<open>ZeroDivisionError\<close>.
\<close>

definition switchboard ::
  "(Divergence_Compact \<Rightarrow> kwargs \<Rightarrow> fl option) \<Rightarrow> Divergence_Compact \<Rightarrow> string \<Rightarrow>
     string option \<Rightarrow> string \<Rightarrow> kwargs \<Rightarrow> error + fl" where
  "switchboard CamagliaMoraWalczak compACT method unit measure' kw =
    (case (case unit of None \<Rightarrow> None | Some u \<Rightarrow> unit_Dict u) of
       None \<Rightarrow> Inl Unknown_unit
     | Some unit_conv \<Rightarrow>
        if measure' \<notin> set [''Kullback-Leibler'', ''Jensen-Shannon'']
        then Inl (Bad_measure In_switchboard)
        else
          (case
            (if method = ''naive'' then
               call_kwargs kw (Naive compACT measure')
             else if method = ''CMW'' then
               (if measure' \<noteq> ''Kullback-Leibler'' then Inl CMW_bad_measure
                else (case CamagliaMoraWalczak compACT kw of
                        None \<Rightarrow> Inl CMW_failure | Some r \<Rightarrow> Inr r))
             else if method = ''Jeffreys'' then
               (let a = Some (1 / 2); b = Some (1 / 2)
                in call_kwargs kw (Dirichlet compACT a b measure'))
             else if method = ''Laplace'' then
               (let a = Some 1; b = Some 1
                in call_kwargs kw (Dirichlet compACT a b measure'))
             else if method = ''SG'' then
               (let a = fl_div (Some 1) (fl_int (Kobs (compact_A compACT)));
                    b = fl_div (Some 1) (fl_int (Kobs (compact_B compACT)))
                in call_kwargs kw (Dirichlet compACT a b measure'))
             else if method = ''minimax'' then
               (let a = fl_div (fl_sqrt (fl_int (N_A compACT)))
                               (fl_int (Kobs (compact_A compACT)));
                    b = fl_div (fl_sqrt (fl_int (N_B compACT)))
                               (fl_int (Kobs (compact_B compACT)))
                in call_kwargs kw (Dirichlet compACT a b measure'))
             else Inl Unknown_method)
           of Inl e \<Rightarrow> Inl e
            | Inr dkl_estimate \<Rightarrow> Inr (fl_mul (Some unit_conv) dkl_estimate)))"

text \<open>
  What \<^verbatim>\<open>unit_conv * dkl_estimate\<close> does to the outcome of an estimator, and the division
  of an outcome by a constant: an exception stays the exception.
\<close>

definition scaled :: "real \<Rightarrow> error + fl \<Rightarrow> error + fl" where
  "scaled c r = (case r of Inl e \<Rightarrow> Inl e | Inr d \<Rightarrow> Inr (fl_mul (Some c) d))"

definition result_div :: "error + fl \<Rightarrow> real \<Rightarrow> error + fl" where
  "result_div r d =
     (case r of Inl e \<Rightarrow> Inl e | Inr None \<Rightarrow> Inr None | Inr (Some x) \<Rightarrow> Inr (Some (x / d)))"

section \<open>The posterior weight\<close>





section \<open>The formulas of the specification\<close>


text \<open>
  The Dirichlet estimator as section 4.6 writes it: every entry of the summary is a term
  of the sum, and the frequencies are \<open>(n + a) / (N + a K)\<close> with the a-priori number of
  categories \<open>K\<close>.
\<close>

definition adjusted_frequency :: "int \<Rightarrow> fl \<Rightarrow> int \<Rightarrow> int \<Rightarrow> fl" where
  "adjusted_frequency n a Ntot Kcat =
     fl_div (fl_add (fl_int n) a) (fl_add (fl_int Ntot) (fl_mul a (fl_int Kcat)))"

definition KL_term :: "fl \<Rightarrow> fl \<Rightarrow> fl" where
  "KL_term p q = fl_mul p (fl_log (fl_div p q))"

definition JS_term :: "fl \<Rightarrow> fl \<Rightarrow> fl" where
  "JS_term p q =
     (let m = fl_mul (Some (1 / 2)) (fl_add p q)
      in fl_add (fl_mul p (fl_log (fl_div p m))) (fl_mul q (fl_log (fl_div q m))))"

definition fl_sum :: "(nat \<Rightarrow> fl) \<Rightarrow> nat \<Rightarrow> fl" where
  "fl_sum t n = foldr (\<lambda>i acc. fl_add (t i) acc) [0..<n] (Some 0)"

definition Dirichlet_spec :: "Divergence_Compact \<Rightarrow> fl \<Rightarrow> fl \<Rightarrow> string \<Rightarrow> error + fl" where
  "Dirichlet_spec c a b measure' =
    (let hA = (\<lambda>i. adjusted_frequency (nn_A c ! i) a (N_A c) (K c));
         hB = (\<lambda>i. adjusted_frequency (nn_B c ! i) b (N_B c) (K c));
         n = length (ff c)
     in if measure' = ''Kullback-Leibler'' then
          Inr (fl_sum (\<lambda>i. fl_mul (fl_int (ff c ! i)) (KL_term (hA i) (hB i))) n)
        else if measure' = ''Jensen-Shannon'' then
          Inr (fl_mul (Some (1 / 2))
                 (fl_sum (\<lambda>i. fl_mul (fl_int (ff c ! i)) (JS_term (hA i) (hB i))) n))
        else Inl (Bad_measure In_Dirichlet))"

text \<open>The two experiments of a summary exchanged.\<close>

definition swap_experiments :: "Divergence_Compact \<Rightarrow> Divergence_Compact" where
  "swap_experiments c =
     c\<lparr> compact_A := compact_B c, compact_B := compact_A c,
        N_A := N_B c, N_B := N_A c, nn_A := nn_B c, nn_B := nn_A c \<rparr>"

text \<open>A summary of two identical experiments.\<close>

definition identical_experiments :: "Divergence_Compact \<Rightarrow> bool" where
  "identical_experiments c \<longleftrightarrow>
     nn_A c = nn_B c \<and> N_A c = N_B c \<and> Kobs (compact_A c) = Kobs (compact_B c)"

text \<open>An array of finite, positive floats.\<close>

definition pos_arr :: "fl list \<Rightarrow> bool" where
  "pos_arr xs \<longleftrightarrow> list_all (\<lambda>x. case x of None \<Rightarrow> False | Some r \<Rightarrow> 0 < r) xs"

section \<open>Example summaries\<close>

text \<open>
  Two categories; the second one is seen in experiment A only. \<open>summary_more\<close> is the same
  summary after one more observation of that category in A.
\<close>

definition summary_one :: Divergence_Compact where
  "summary_one =
     \<lparr> compact_A = \<lparr> N = 2, K = 2, Kobs = 2, nn = [1, 1], ff = [1, 1] \<rparr>,
       compact_B = \<lparr> N = 1, K = 2, Kobs = 1, nn = [1, 0], ff = [1, 1] \<rparr>,
       N_A = 2, N_B = 1, K = 2, nn_A = [1, 1], nn_B = [1, 0], ff = [1, 1] \<rparr>"

definition summary_more :: Divergence_Compact where
  "summary_more =
     \<lparr> compact_A = \<lparr> N = 3, K = 2, Kobs = 2, nn = [1, 2], ff = [1, 1] \<rparr>,
       compact_B = \<lparr> N = 1, K = 2, Kobs = 1, nn = [1, 0], ff = [1, 1] \<rparr>,
       N_A = 3, N_B = 1, K = 2, nn_A = [1, 2], nn_B = [1, 0], ff = [1, 1] \<rparr>"

text \<open>
  \<open>summary_one\<close> with the count of the second category in A changed and the total
  \<open>N_A\<close> as it was.
\<close>

definition summary_recount :: Divergence_Compact where
  "summary_recount = summary_one\<lparr> nn_A := (nn_A summary_one)[1 := 2] \<rparr>"

text \<open>Two different empirical distributions, mirror images of each other.\<close>

definition summary_mirror :: Divergence_Compact where
  "summary_mirror =
     \<lparr> compact_A = \<lparr> N = 3, K = 2, Kobs = 2, nn = [1, 2], ff = [1, 1] \<rparr>,
       compact_B = \<lparr> N = 3, K = 2, Kobs = 2, nn = [2, 1], ff = [1, 1] \<rparr>,
       N_A = 3, N_B = 3, K = 2, nn_A = [1, 2], nn_B = [2, 1], ff = [1, 1] \<rparr>"

text \<open>
  Twice the same experiment: one category seen once, and one a-priori category that was
  never seen (the entry \<open>(0, 0)\<close> that \<^verbatim>\<open>Divergence.__init__\<close> adds).
\<close>

definition summary_same :: Divergence_Compact where
  "summary_same =
     \<lparr> compact_A = \<lparr> N = 1, K = 2, Kobs = 1, nn = [0, 1], ff = [1, 1] \<rparr>,
       compact_B = \<lparr> N = 1, K = 2, Kobs = 1, nn = [0, 1], ff = [1, 1] \<rparr>,
       N_A = 1, N_B = 1, K = 2, nn_A = [0, 1], nn_B = [0, 1], ff = [1, 1] \<rparr>"


text \<open>
  Experiment B without any observation; the first category is seen once, or seven times,
  in A.
\<close>

definition summary_B_empty :: Divergence_Compact where
  "summary_B_empty =
     \<lparr> compact_A = \<lparr> N = 4, K = 2, Kobs = 2, nn = [1, 3], ff = [1, 1] \<rparr>,
       compact_B = \<lparr> N = 0, K = 2, Kobs = 0, nn = [0, 0], ff = [1, 1] \<rparr>,
       N_A = 4, N_B = 0, K = 2, nn_A = [1, 3], nn_B = [0, 0], ff = [1, 1] \<rparr>"

definition summary_B_empty_more :: Divergence_Compact where
  "summary_B_empty_more =
     \<lparr> compact_A = \<lparr> N = 10, K = 2, Kobs = 2, nn = [7, 3], ff = [1, 1] \<rparr>,
       compact_B = \<lparr> N = 0, K = 2, Kobs = 0, nn = [0, 0], ff = [1, 1] \<rparr>,
       N_A = 10, N_B = 0, K = 2, nn_A = [7, 3], nn_B = [0, 0], ff = [1, 1] \<rparr>"

text \<open>
  Two summaries with the same totals that differ in the count of the first category in A,
  a category never seen in B (the second one violates \<open>ff.dot(nn_A) = N_A\<close>).
\<close>

definition summary_22 :: Divergence_Compact where
  "summary_22 =
     \<lparr> compact_A = \<lparr> N = 22, K = 2, Kobs = 2, nn = [1, 21], ff = [1, 1] \<rparr>,
       compact_B = \<lparr> N = 1, K = 2, Kobs = 1, nn = [0, 1], ff = [1, 1] \<rparr>,
       N_A = 22, N_B = 1, K = 2, nn_A = [1, 21], nn_B = [0, 1], ff = [1, 1] \<rparr>"

definition summary_22_recount :: Divergence_Compact where
  "summary_22_recount = summary_22\<lparr> nn_A := (nn_A summary_22)[0 := 3] \<rparr>"

definition no_CMW :: "Divergence_Compact \<Rightarrow> kwargs \<Rightarrow> fl option" where
  "no_CMW c kw = None"

section \<open>Evaluation of the array operations\<close>

lemmas arr_defs =
  arr_add_def arr_mul_def arr_div_def arr_log_def scal_mul_def
  int_arr_add_scal_def int_arr_div_scal_def arr_div_scal_def fl_int_def

section \<open>The switchboard, branch by branch\<close>

lemma unit_Dict_None_iff: "unit_Dict u = None \<longleftrightarrow> u \<notin> set [''ln'', ''log2'', ''log10'']"
  by (simp add: unit_Dict_def)

lemma unit_Dict_simps:
  "unit_Dict ''ln'' = Some 1"
  "unit_Dict ''log2'' = Some (1 / ln 2)"
  "unit_Dict ''log10'' = Some (1 / ln 10)"
  by (simp_all add: unit_Dict_def)

lemma switchboard_naive:
  assumes "unit_Dict u = Some uc"
    and "measure' = ''Kullback-Leibler'' \<or> measure' = ''Jensen-Shannon''"
  shows "switchboard cmw c ''naive'' (Some u) measure' kw =
           scaled uc (call_kwargs kw (Naive c measure'))"
  using assms unfolding switchboard_def scaled_def by (simp cong: sum.case_cong_weak)

lemma switchboard_Jeffreys:
  assumes "unit_Dict u = Some uc"
    and "measure' = ''Kullback-Leibler'' \<or> measure' = ''Jensen-Shannon''"
  shows "switchboard cmw c ''Jeffreys'' (Some u) measure' kw =
           scaled uc (call_kwargs kw (Dirichlet c (Some (1 / 2)) (Some (1 / 2)) measure'))"
  using assms unfolding switchboard_def scaled_def Let_def by (simp cong: sum.case_cong_weak)

lemma switchboard_Laplace:
  assumes "unit_Dict u = Some uc"
    and "measure' = ''Kullback-Leibler'' \<or> measure' = ''Jensen-Shannon''"
  shows "switchboard cmw c ''Laplace'' (Some u) measure' kw =
           scaled uc (call_kwargs kw (Dirichlet c (Some 1) (Some 1) measure'))"
  using assms unfolding switchboard_def scaled_def Let_def by (simp cong: sum.case_cong_weak)

lemma switchboard_SG:
  assumes "unit_Dict u = Some uc"
    and "measure' = ''Kullback-Leibler'' \<or> measure' = ''Jensen-Shannon''"
  shows "switchboard cmw c ''SG'' (Some u) measure' kw =
           scaled uc (call_kwargs kw (Dirichlet c
              (fl_div (Some 1) (fl_int (Kobs (compact_A c))))
              (fl_div (Some 1) (fl_int (Kobs (compact_B c)))) measure'))"
  using assms unfolding switchboard_def scaled_def Let_def by (simp cong: sum.case_cong_weak)

lemma switchboard_minimax:
  assumes "unit_Dict u = Some uc"
    and "measure' = ''Kullback-Leibler'' \<or> measure' = ''Jensen-Shannon''"
  shows "switchboard cmw c ''minimax'' (Some u) measure' kw =
           scaled uc (call_kwargs kw (Dirichlet c
              (fl_div (fl_sqrt (fl_int (N_A c))) (fl_int (Kobs (compact_A c))))
              (fl_div (fl_sqrt (fl_int (N_B c))) (fl_int (Kobs (compact_B c)))) measure'))"
  using assms unfolding switchboard_def scaled_def Let_def by (simp cong: sum.case_cong_weak)

lemma switchboard_bad_unit:
  assumes "unit \<notin> Some ` set [''ln'', ''log2'', ''log10'']"
  shows "switchboard cmw c method unit measure' kw = Inl Unknown_unit"
proof -
  have "(case unit of None \<Rightarrow> None | Some u \<Rightarrow> unit_Dict u) = None"
    using assms unit_Dict_None_iff by (cases unit) auto
  then show ?thesis
    unfolding switchboard_def by (simp cong: option.case_cong_weak)
qed

lemma switchboard_bad_measure:
  assumes "unit_Dict u = Some uc"
    and "measure' \<notin> set [''Kullback-Leibler'', ''Jensen-Shannon'']"
  shows "switchboard cmw c method (Some u) measure' kw = Inl (Bad_measure In_switchboard)"
  using assms by (simp add: switchboard_def)

lemma switchboard_bad_method:
  assumes "unit_Dict u = Some uc"
    and "measure' = ''Kullback-Leibler'' \<or> measure' = ''Jensen-Shannon''"
    and "method \<notin> set [''naive'', ''CMW'', ''Jeffreys'', ''Laplace'', ''SG'', ''minimax'']"
  shows "switchboard cmw c method (Some u) measure' kw = Inl Unknown_method"
  using assms unfolding switchboard_def by (simp cong: sum.case_cong_weak)

lemma switchboard_CMW_bad_measure:
  assumes "unit_Dict u = Some uc" and "measure' = ''Jensen-Shannon''"
  shows "switchboard cmw c ''CMW'' (Some u) measure' kw = Inl CMW_bad_measure"
  using assms unfolding switchboard_def by (simp cong: sum.case_cong_weak)

subsection \<open>The table of methods\<close>

text \<open>
  Claim C4. With a unit of the table and one of the two measures, the switchboard returns
  the converted outcome of: the Dirichlet estimator with \<open>a = b = 0.5\<close> for
  \<open>Jeffreys\<close>, with \<open>a = b = 1\<close> for \<open>Laplace\<close>, with \<open>a = 1/Kobs_A\<close> and
  \<open>b = 1/Kobs_B\<close> for \<open>SG\<close>, with \<open>a = sqrt(N_A)/Kobs_A\<close> and \<open>b = sqrt(N_B)/Kobs_B\<close>
  for \<open>minimax\<close>; and of the Naive estimator for \<open>naive\<close>.
\<close>

theorem switchboard_method_table:
  assumes "unit_Dict u = Some uc"
    and "measure' = ''Kullback-Leibler'' \<or> measure' = ''Jensen-Shannon''"
  shows "switchboard cmw c ''Jeffreys'' (Some u) measure' kw =
           scaled uc (call_kwargs kw (Dirichlet c (Some (1 / 2)) (Some (1 / 2)) measure')) \<and>
         switchboard cmw c ''Laplace'' (Some u) measure' kw =
           scaled uc (call_kwargs kw (Dirichlet c (Some 1) (Some 1) measure')) \<and>
         switchboard cmw c ''SG'' (Some u) measure' kw =
           scaled uc (call_kwargs kw (Dirichlet c
              (fl_div (Some 1) (fl_int (Kobs (compact_A c))))
              (fl_div (Some 1) (fl_int (Kobs (compact_B c)))) measure')) \<and>
         switchboard cmw c ''minimax'' (Some u) measure' kw =
           scaled uc (call_kwargs kw (Dirichlet c
              (fl_div (fl_sqrt (fl_int (N_A c))) (fl_int (Kobs (compact_A c))))
              (fl_div (fl_sqrt (fl_int (N_B c))) (fl_int (Kobs (compact_B c)))) measure')) \<and>
         switchboard cmw c ''naive'' (Some u) measure' kw =
           scaled uc (call_kwargs kw (Naive c measure'))"
  using switchboard_Jeffreys [OF assms] switchboard_Laplace [OF assms]
    switchboard_SG [OF assms] switchboard_minimax [OF assms] switchboard_naive [OF assms]
  by blast

theorem switchboard_method_table_witness:
  "unit_Dict ''log2'' = Some (1 / ln 2) \<and>
   switchboard no_CMW summary_one ''Laplace'' (Some ''log2'') ''Kullback-Leibler'' [] =
     Inr (Some ((ln (3 / 4) / 2 + ln (3 / 2) / 2) / ln 2)) \<and>
   switchboard no_CMW summary_one ''naive'' (Some ''log2'') ''Kullback-Leibler'' [] =
     Inr (Some (ln (1 / 2) / 2 / ln 2))"
proof -
  have u: "unit_Dict ''log2'' = Some (1 / ln 2)"
    by (simp add: unit_Dict_def)
  have m: "''Kullback-Leibler'' = ''Kullback-Leibler'' \<or> ''Kullback-Leibler'' = ''Jensen-Shannon''"
    by simp
  have D: "Dirichlet summary_one (Some 1) (Some 1) ''Kullback-Leibler'' =
             Inr (Some (ln (3 / 4) / 2 + ln (3 / 2) / 2))"
    by (simp add: Dirichlet_def summary_one_def Let_def arr_defs)
  have N: "Naive summary_one ''Kullback-Leibler'' = Inr (Some (ln (1 / 2) / 2))"
    by (simp add: Naive_def summary_one_def Let_def arr_defs)
  show ?thesis
    using u switchboard_method_table [OF u m, of no_CMW summary_one "[]"]
    by (simp add: D N scaled_def call_kwargs_def)
qed

subsection \<open>Rejected configurations\<close>

text \<open>
  Claim C5. The switchboard raises one of its \<open>IOError\<close>s, and so returns no number, when
  the unit is not \<open>ln\<close>, \<open>log2\<close> or \<open>log10\<close> (an omitted unit is \<open>None\<close>), when the
  measure is not \<open>Kullback-Leibler\<close> or \<open>Jensen-Shannon\<close>, when the method is not one of
  the six names, and when the method is \<open>CMW\<close> with another measure than
  \<open>Kullback-Leibler\<close>. This holds for every summary, every keyword argument and every
  behaviour of the external CMW estimator.
\<close>

theorem switchboard_rejects_invalid_configuration:
  assumes "unit \<notin> Some ` set [''ln'', ''log2'', ''log10''] \<or>
           measure' \<notin> set [''Kullback-Leibler'', ''Jensen-Shannon''] \<or>
           method \<notin> set [''naive'', ''CMW'', ''Jeffreys'', ''Laplace'', ''SG'', ''minimax''] \<or>
           (method = ''CMW'' \<and> measure' \<noteq> ''Kullback-Leibler'')"
  shows "\<exists>e. switchboard cmw c method unit measure' kw = Inl e \<and> is_IOError e"
proof (cases "unit \<in> Some ` set [''ln'', ''log2'', ''log10'']")
  case False
  then show ?thesis
    using switchboard_bad_unit [of unit cmw c "method" measure' kw] by simp
next
  case True
  then obtain u uc where u: "unit = Some u" "unit_Dict u = Some uc"
    using unit_Dict_None_iff by fastforce
  show ?thesis
  proof (cases "measure' \<in> set [''Kullback-Leibler'', ''Jensen-Shannon'']")
    case False
    then show ?thesis
      using u switchboard_bad_measure [of u uc measure' cmw c "method" kw] by simp
  next
    case m: True
    show ?thesis
    proof (cases "method \<in> set [''naive'', ''CMW'', ''Jeffreys'', ''Laplace'', ''SG'', ''minimax'']")
      case False
      then show ?thesis
        using u m switchboard_bad_method [of u uc measure' "method" cmw c kw] by simp
    next
      case meth: True
      with assms True m have "method = ''CMW''" "measure' = ''Jensen-Shannon''"
        by auto
      then show ?thesis
        using u switchboard_CMW_bad_measure [of u uc measure' cmw c kw] by simp
    qed
  qed
qed

theorem switchboard_rejects_invalid_configuration_witness:
  "(\<exists>e. switchboard no_CMW summary_one ''naive'' (Some ''log3'') ''Kullback-Leibler'' [] = Inl e
        \<and> is_IOError e) \<and>
   (\<exists>e. switchboard no_CMW summary_one ''naive'' None ''Kullback-Leibler'' [] = Inl e
        \<and> is_IOError e) \<and>
   (\<exists>e. switchboard no_CMW summary_one ''naive'' (Some ''ln'') ''Hellinger'' [] = Inl e
        \<and> is_IOError e) \<and>
   (\<exists>e. switchboard no_CMW summary_one ''unknown'' (Some ''ln'') ''Kullback-Leibler'' [] = Inl e
        \<and> is_IOError e) \<and>
   (\<exists>e. switchboard no_CMW summary_one ''CMW'' (Some ''ln'') ''Jensen-Shannon'' [] = Inl e
        \<and> is_IOError e)"
  using switchboard_rejects_invalid_configuration
          [of "Some ''log3''" "''Kullback-Leibler''" "''naive''" no_CMW summary_one "[]"]
        switchboard_rejects_invalid_configuration
          [of None "''Kullback-Leibler''" "''naive''" no_CMW summary_one "[]"]
        switchboard_rejects_invalid_configuration
          [of "Some ''ln''" "''Hellinger''" "''naive''" no_CMW summary_one "[]"]
        switchboard_rejects_invalid_configuration
          [of "Some ''ln''" "''Kullback-Leibler''" "''unknown''" no_CMW summary_one "[]"]
        switchboard_rejects_invalid_configuration
          [of "Some ''ln''" "''Jensen-Shannon''" "''CMW''" no_CMW summary_one "[]"]
  by simp

subsection \<open>The unit of the logarithm\<close>

lemma scaled_log_unit:
  assumes "d \<noteq> 0"
  shows "scaled (1 / d) r = result_div (scaled 1 r) d"
  by (cases r) (auto simp: scaled_def result_div_def split: option.splits elim: fl_mul.elims)

lemma switchboard_scaled:
  assumes "measure' = ''Kullback-Leibler'' \<or> measure' = ''Jensen-Shannon''"
    and "method \<in> set [''naive'', ''Jeffreys'', ''Laplace'', ''SG'', ''minimax'']"
  shows "\<exists>r. \<forall>u uc. unit_Dict u = Some uc \<longrightarrow>
            switchboard cmw c method (Some u) measure' kw = scaled uc r"
  using assms(2) switchboard_naive [OF _ assms(1)] switchboard_Jeffreys [OF _ assms(1)]
    switchboard_Laplace [OF _ assms(1)] switchboard_SG [OF _ assms(1)]
    switchboard_minimax [OF _ assms(1)]
  by auto

text \<open>
  Claim C6. For one of the two measures and a method other than \<open>CMW\<close>, the outcome with
  unit \<open>log2\<close> is the outcome with unit \<open>ln\<close> divided by \<open>ln 2\<close>, and the outcome with
  unit \<open>log10\<close> the one with unit \<open>ln\<close> divided by \<open>ln 10\<close> (finite arithmetic is exact
  in the model; a failing call fails in the same way with every unit).
\<close>

theorem switchboard_unit_conversion:
  assumes "measure' = ''Kullback-Leibler'' \<or> measure' = ''Jensen-Shannon''"
    and "method \<in> set [''naive'', ''Jeffreys'', ''Laplace'', ''SG'', ''minimax'']"
  shows "switchboard cmw c method (Some ''log2'') measure' kw =
           result_div (switchboard cmw c method (Some ''ln'') measure' kw) (ln 2) \<and>
         switchboard cmw c method (Some ''log10'') measure' kw =
           result_div (switchboard cmw c method (Some ''ln'') measure' kw) (ln 10)"
proof -
  obtain r where r: "\<And>u uc. unit_Dict u = Some uc \<Longrightarrow>
      switchboard cmw c method (Some u) measure' kw = scaled uc r"
    using switchboard_scaled [OF assms] by blast
  have "ln (2::real) \<noteq> 0" "ln (10::real) \<noteq> 0"
    by simp_all
  then show ?thesis
    using r [OF unit_Dict_simps(1)] r [OF unit_Dict_simps(2)] r [OF unit_Dict_simps(3)]
    by (simp add: scaled_log_unit)
qed

theorem switchboard_unit_conversion_witness:
  "switchboard no_CMW summary_one ''naive'' (Some ''ln'') ''Kullback-Leibler'' [] =
     Inr (Some (ln (1 / 2) / 2)) \<and>
   switchboard no_CMW summary_one ''naive'' (Some ''log2'') ''Kullback-Leibler'' [] =
     Inr (Some (ln (1 / 2) / 2 / ln 2)) \<and>
   switchboard no_CMW summary_one ''naive'' (Some ''log10'') ''Kullback-Leibler'' [] =
     Inr (Some (ln (1 / 2) / 2 / ln 10))"
proof -
  have m: "''Kullback-Leibler'' = ''Kullback-Leibler'' \<or> ''Kullback-Leibler'' = ''Jensen-Shannon''"
    by simp
  have N: "Naive summary_one ''Kullback-Leibler'' = Inr (Some (ln (1 / 2) / 2))"
    by (simp add: Naive_def summary_one_def Let_def arr_defs)
  have L: "switchboard no_CMW summary_one ''naive'' (Some ''ln'') ''Kullback-Leibler'' [] =
             Inr (Some (ln (1 / 2) / 2))"
    using switchboard_naive [OF unit_Dict_simps(1) m, of no_CMW summary_one "[]"]
    by (simp add: N scaled_def call_kwargs_def)
  show ?thesis
    using switchboard_unit_conversion [OF m, of "''naive''" no_CMW summary_one "[]"]
    by (simp add: L result_div_def)
qed

subsection \<open>The measure check of the estimators\<close>

lemma Naive_error_iff:
  "Naive c measure' = Inl e \<longleftrightarrow>
     e = Bad_measure In_Naive \<and>
     measure' \<noteq> ''Kullback-Leibler'' \<and> measure' \<noteq> ''Jensen-Shannon''"
  unfolding Naive_def Let_def by auto

lemma Dirichlet_error_iff:
  "Dirichlet c a b measure' = Inl e \<longleftrightarrow>
     e = Bad_measure In_Dirichlet \<and>
     measure' \<noteq> ''Kullback-Leibler'' \<and> measure' \<noteq> ''Jensen-Shannon''"
  unfolding Dirichlet_def Let_def by auto

text \<open>Called directly, both estimators do reach their last branch.\<close>

lemma Naive_unknown_measure: "Naive c ''Hellinger'' = Inl (Bad_measure In_Naive)"
  by (simp add: Naive_def Let_def)

lemma Dirichlet_unknown_measure:
  "Dirichlet c a b ''Hellinger'' = Inl (Bad_measure In_Dirichlet)"
  by (simp add: Dirichlet_def Let_def)

lemma call_kwargs_error_iff:
  "call_kwargs kw r = Inl e \<longleftrightarrow> (kw = [] \<and> r = Inl e) \<or> (kw \<noteq> [] \<and> e = TypeError_kwargs)"
  by (auto simp: call_kwargs_def)

lemma scale_error_iff:
  "(case r of Inl e \<Rightarrow> Inl e | Inr d \<Rightarrow> Inr (f d)) = Inl x \<longleftrightarrow> r = Inl x"
  by (cases r) auto

lemma switchboard_error_cases:
  assumes "switchboard cmw c method unit measure' kw = Inl e"
  shows "e = Unknown_unit \<or> e = Bad_measure In_switchboard \<or> e = CMW_bad_measure \<or>
         e = Unknown_method \<or> e = TypeError_kwargs \<or> e = CMW_failure"
proof (cases "case unit of None \<Rightarrow> None | Some u \<Rightarrow> unit_Dict u")
  case None
  with assms show ?thesis
    by (simp add: switchboard_def)
next
  case (Some uc)
  show ?thesis
  proof (cases "measure' = ''Kullback-Leibler'' \<or> measure' = ''Jensen-Shannon''")
    case False
    with assms Some show ?thesis
      by (simp add: switchboard_def)
  next
    case True
    with assms Some show ?thesis
      unfolding switchboard_def Let_def
      by (auto simp add: scale_error_iff call_kwargs_error_iff Naive_error_iff
            Dirichlet_error_iff split: if_splits option.splits)
  qed
qed

text \<open>
  Claim C10. Whatever the arguments, the switchboard never fails with the error of the last
  branch of \<open>Naive\<close> or of \<open>Dirichlet\<close>: it checks the measure itself before it calls an
  estimator and passes the same measure on, so an unknown measure is its own error
  \<open>Bad_measure In_switchboard\<close>.
\<close>

theorem switchboard_estimator_measure_error_unreachable:
  "switchboard cmw c method unit measure' kw \<noteq> Inl (Bad_measure In_Naive) \<and>
   switchboard cmw c method unit measure' kw \<noteq> Inl (Bad_measure In_Dirichlet)"
  using switchboard_error_cases [of cmw c "method" unit measure' kw] by auto

section \<open>The posterior weight and its formula\<close>




section \<open>The Dirichlet estimator and the specification's formula\<close>

lemma fl_sum_Suc: "fl_sum t (Suc n) = fl_add (t 0) (fl_sum (\<lambda>i. t (Suc i)) n)"
proof -
  have "[0..<Suc n] = 0 # map Suc [0..<n]"
    by (simp add: upt_conv_Cons map_Suc_upt del: upt_Suc)
  then show ?thesis
    by (simp add: fl_sum_def foldr_map comp_def del: upt_Suc)
qed

lemma fl_sum_0: "fl_sum t 0 = Some 0"
  by (simp add: fl_sum_def)

lemma fl_sum_cong: "(\<And>i. i < n \<Longrightarrow> t i = t' i) \<Longrightarrow> fl_sum t n = fl_sum t' n"
proof (induction n arbitrary: t t')
  case 0
  show ?case by (simp add: fl_sum_0)
next
  case (Suc n)
  have "fl_sum (\<lambda>i. t (Suc i)) n = fl_sum (\<lambda>i. t' (Suc i)) n"
    by (rule Suc.IH) (simp add: Suc.prems)
  moreover have "t 0 = t' 0" by (simp add: Suc.prems)
  ultimately show ?case by (simp add: fl_sum_Suc)
qed

lemma dot_fl_sum:
  "length xs = length fs \<Longrightarrow>
     dot fs xs = fl_sum (\<lambda>i. fl_mul (fl_int (fs ! i)) (xs ! i)) (length fs)"
proof (induction xs fs rule: list_induct2)
  case Nil
  show ?case by (simp add: fl_sum_0)
next
  case (Cons x xs f fs)
  then show ?case by (simp add: fl_sum_Suc)
qed

text \<open>
  Claim C3. For a summary with parallel arrays and \<open>sum(ff) = K\<close>, and for every pair of
  pseudocounts, the Dirichlet estimator is the specification's formula: no entry of the
  summary is masked out, the adjusted frequencies are \<open>(nn_A + a) / (N_A + a K)\<close> and
  \<open>(nn_B + b) / (N_B + b K)\<close>, and the Kullback-Leibler or Jensen-Shannon sum is taken
  over them.
\<close>

theorem Dirichlet_refines_spec:
  assumes "length (nn_A c) = length (ff c)" and "length (nn_B c) = length (ff c)"
    and "sum_list (ff c) = K c"
  shows "Dirichlet c a b measure' = Dirichlet_spec c a b measure'"
proof -
  define NAa where "NAa = fl_add (fl_int (N_A c)) (fl_mul a (fl_int (sum_list (ff c))))"
  define NBb where "NBb = fl_add (fl_int (N_B c)) (fl_mul b (fl_int (sum_list (ff c))))"
  define hA where "hA = arr_div_scal (int_arr_add_scal (nn_A c) a) NAa"
  define hB where "hB = arr_div_scal (int_arr_add_scal (nn_B c) b) NBb"
  define mm where "mm = scal_mul (Some (1 / 2)) (arr_add hA hB)"
  define n where "n = length (ff c)"
  have len: "length hA = n" "length hB = n" "length mm = n"
    using assms(1,2) by (simp_all add: hA_def hB_def mm_def n_def arr_defs)
  have hA_nth: "hA ! i = adjusted_frequency (nn_A c ! i) a (N_A c) (K c)" if "i < n" for i
    using that assms(1,3) by (simp add: hA_def NAa_def n_def arr_defs adjusted_frequency_def)
  have hB_nth: "hB ! i = adjusted_frequency (nn_B c ! i) b (N_B c) (K c)" if "i < n" for i
    using that assms(2,3) by (simp add: hB_def NBb_def n_def arr_defs adjusted_frequency_def)
  have KL: "dot (ff c) (arr_mul hA (arr_log (arr_div hA hB))) =
      fl_sum (\<lambda>i. fl_mul (fl_int (ff c ! i))
         (KL_term (adjusted_frequency (nn_A c ! i) a (N_A c) (K c))
                  (adjusted_frequency (nn_B c ! i) b (N_B c) (K c)))) n"
  proof -
    have "dot (ff c) (arr_mul hA (arr_log (arr_div hA hB))) =
        fl_sum (\<lambda>i. fl_mul (fl_int (ff c ! i)) (arr_mul hA (arr_log (arr_div hA hB)) ! i)) n"
      unfolding n_def by (rule dot_fl_sum) (simp add: len arr_defs n_def [symmetric])
    also have "\<dots> = fl_sum (\<lambda>i. fl_mul (fl_int (ff c ! i))
         (KL_term (adjusted_frequency (nn_A c ! i) a (N_A c) (K c))
                  (adjusted_frequency (nn_B c ! i) b (N_B c) (K c)))) n"
    proof (rule fl_sum_cong)
      fix i assume i: "i < n"
      have "arr_mul hA (arr_log (arr_div hA hB)) ! i = KL_term (hA ! i) (hB ! i)"
        using i len by (simp add: arr_mul_def arr_log_def arr_div_def KL_term_def)
      then show "fl_mul (fl_int (ff c ! i)) (arr_mul hA (arr_log (arr_div hA hB)) ! i) =
          fl_mul (fl_int (ff c ! i))
            (KL_term (adjusted_frequency (nn_A c ! i) a (N_A c) (K c))
                     (adjusted_frequency (nn_B c ! i) b (N_B c) (K c)))"
        using i by (simp add: hA_nth hB_nth)
    qed
    finally show ?thesis .
  qed
  have JS: "dot (ff c) (arr_add (arr_mul hA (arr_log (arr_div hA mm)))
                                  (arr_mul hB (arr_log (arr_div hB mm)))) =
      fl_sum (\<lambda>i. fl_mul (fl_int (ff c ! i))
         (JS_term (adjusted_frequency (nn_A c ! i) a (N_A c) (K c))
                  (adjusted_frequency (nn_B c ! i) b (N_B c) (K c)))) n"
  proof -
    let ?v = "arr_add (arr_mul hA (arr_log (arr_div hA mm))) (arr_mul hB (arr_log (arr_div hB mm)))"
    have "dot (ff c) ?v = fl_sum (\<lambda>i. fl_mul (fl_int (ff c ! i)) (?v ! i)) n"
      unfolding n_def by (rule dot_fl_sum) (simp add: len arr_defs n_def [symmetric])
    also have "\<dots> = fl_sum (\<lambda>i. fl_mul (fl_int (ff c ! i))
         (JS_term (adjusted_frequency (nn_A c ! i) a (N_A c) (K c))
                  (adjusted_frequency (nn_B c ! i) b (N_B c) (K c)))) n"
    proof (rule fl_sum_cong)
      fix i assume i: "i < n"
      have "mm ! i = fl_mul (Some (1 / 2)) (fl_add (hA ! i) (hB ! i))"
        using i len(1,2) by (simp add: mm_def scal_mul_def arr_add_def)
      then have "?v ! i = JS_term (hA ! i) (hB ! i)"
        using i len
        by (simp add: arr_add_def arr_mul_def arr_log_def arr_div_def JS_term_def Let_def)
      then show "fl_mul (fl_int (ff c ! i)) (?v ! i) =
          fl_mul (fl_int (ff c ! i))
            (JS_term (adjusted_frequency (nn_A c ! i) a (N_A c) (K c))
                     (adjusted_frequency (nn_B c ! i) b (N_B c) (K c)))"
        using i by (simp add: hA_nth hB_nth)
    qed
    finally show ?thesis .
  qed
  have D: "Dirichlet c a b measure' =
    (if measure' = ''Kullback-Leibler'' then
       Inr (dot (ff c) (arr_mul hA (arr_log (arr_div hA hB))))
     else if measure' = ''Jensen-Shannon'' then
       Inr (fl_mul (Some (1 / 2))
         (dot (ff c) (arr_add (arr_mul hA (arr_log (arr_div hA mm)))
                              (arr_mul hB (arr_log (arr_div hB mm))))))
     else Inl (Bad_measure In_Dirichlet))"
    unfolding Dirichlet_def Let_def hA_def hB_def mm_def NAa_def NBb_def by (rule refl)
  show ?thesis
    unfolding D Dirichlet_spec_def Let_def KL JS n_def by (rule refl)
qed

theorem Dirichlet_refines_spec_witness:
  "length (nn_A summary_one) = length (ff summary_one) \<and>
   length (nn_B summary_one) = length (ff summary_one) \<and>
   sum_list (ff summary_one) = K summary_one \<and>
   Dirichlet_spec summary_one (Some 1) (Some 1) ''Kullback-Leibler'' =
     Inr (Some (ln (3 / 4) / 2 + ln (3 / 2) / 2))"
proof -
  have l: "length (nn_A summary_one) = length (ff summary_one)"
    "length (nn_B summary_one) = length (ff summary_one)"
    "sum_list (ff summary_one) = K summary_one"
    by (simp_all add: summary_one_def)
  have D: "Dirichlet summary_one (Some 1) (Some 1) ''Kullback-Leibler'' =
      Inr (Some (ln (3 / 4) / 2 + ln (3 / 2) / 2))"
    by (simp add: Dirichlet_def summary_one_def Let_def arr_defs)
  show ?thesis
    using l D Dirichlet_refines_spec [OF l, of "Some 1" "Some 1" "''Kullback-Leibler''"]
    by simp
qed

section \<open>Two identical experiments\<close>

lemma pos_arr_Nil: "pos_arr []"
  by (simp add: pos_arr_def)

lemma pos_arr_Cons: "pos_arr (x # xs) \<longleftrightarrow> (\<exists>r. x = Some r \<and> 0 < r) \<and> pos_arr xs"
  by (cases x) (simp_all add: pos_arr_def)

lemma KL_self_zero:
  "pos_arr h \<Longrightarrow> arr_mul h (arr_log (arr_div h h)) = map (\<lambda>x. Some 0) h"
  by (induction h) (auto simp: pos_arr_Cons arr_mul_def arr_log_def arr_div_def)

lemma mid_self:
  "pos_arr h \<Longrightarrow> scal_mul (Some (1 / 2)) (arr_add h h) = h"
  by (induction h) (auto simp: pos_arr_Cons scal_mul_def arr_add_def)

lemma arr_add_zero: "arr_add (map (\<lambda>x. Some 0) h) (map (\<lambda>x. Some 0) h) = map (\<lambda>x. Some 0) h"
  by (induction h) (simp_all add: arr_add_def)

lemma dot_zero: "dot fs (map (\<lambda>x. Some 0) h) = Some 0"
  by (induction fs "map (\<lambda>x. Some (0::real)) h" arbitrary: h rule: dot.induct)
     (auto simp: fl_int_def)

lemma int_dot_nonneg:
  "length ns = length fs \<Longrightarrow> list_all (\<lambda>f. 0 < f) fs \<Longrightarrow> list_all (\<lambda>n. 0 \<le> n) ns \<Longrightarrow>
     0 \<le> int_dot fs ns"
  by (induction ns fs rule: list_induct2) (simp_all add: int_dot_def)

lemma int_dot_pos:
  "length ns = length fs \<Longrightarrow> list_all (\<lambda>f. 0 < f) fs \<Longrightarrow> list_all (\<lambda>n. 0 \<le> n) ns \<Longrightarrow>
     \<exists>n \<in> set ns. 0 < n \<Longrightarrow> 0 < int_dot fs ns"
proof (induction ns fs rule: list_induct2)
  case Nil
  then show ?case by simp
next
  case (Cons n ns f fs)
  have rest: "0 \<le> int_dot fs ns"
    using Cons.hyps Cons.prems(1,2) by (simp add: int_dot_nonneg)
  show ?case
  proof (cases "0 < n")
    case True
    then have "0 < f * n" using Cons.prems(1) by simp
    then show ?thesis using rest by (simp add: int_dot_def)
  next
    case False
    then have "\<exists>n \<in> set ns. 0 < n" using Cons.prems(3) by auto
    then have "0 < int_dot fs ns" using Cons.IH Cons.prems(1,2) by simp
    moreover have "0 \<le> f * n" using Cons.prems(1,2) by simp
    ultimately show ?thesis by (simp add: int_dot_def)
  qed
qed

lemma select_subset: "set (select ms xs) \<subseteq> set xs"
  by (induction ms xs rule: select.induct) auto

lemma select_gtr0_pos:
  "n \<in> set (select (map2 (\<lambda>x y. 0 < x \<and> 0 < y) xs ys) xs) \<Longrightarrow> 0 < (n::int)"
proof (induction xs arbitrary: ys)
  case Nil
  then show ?case by simp
next
  case (Cons x xs)
  then show ?case by (cases ys) (auto split: if_splits)
qed

lemma pos_arr_int_div:
  "0 < d \<Longrightarrow> (\<And>n. n \<in> set ns \<Longrightarrow> 0 < n) \<Longrightarrow> pos_arr (int_arr_div_scal ns d)"
  by (induction ns) (simp_all add: pos_arr_Nil pos_arr_Cons int_arr_div_scal_def fl_int_def)

lemma pos_arr_adjusted:
  "0 < d \<Longrightarrow> 0 < a \<Longrightarrow> list_all (\<lambda>n. 0 \<le> n) ns \<Longrightarrow>
     pos_arr (arr_div_scal (int_arr_add_scal ns (Some a)) (Some d))"
  by (induction ns)
     (simp_all add: pos_arr_Nil pos_arr_Cons arr_div_scal_def int_arr_add_scal_def fl_int_def
        add_nonneg_pos)

lemma sum_list_pos_int:
  "fs \<noteq> [] \<Longrightarrow> list_all (\<lambda>f. 0 < f) fs \<Longrightarrow> 0 < (sum_list fs :: int)"
proof (induction fs)
  case Nil
  then show ?case by simp
next
  case (Cons f fs)
  show ?case
  proof (cases "fs = []")
    case True
    then show ?thesis using Cons.prems by simp
  next
    case False
    then have "0 < sum_list fs" using Cons by simp
    then show ?thesis using Cons.prems by simp
  qed
qed

lemma Naive_self:
  assumes "wf_Divergence_Compact c" and "nn_B c = nn_A c"
  shows "pos_arr (int_arr_div_scal (select (map2 (\<lambda>x y. 0 < x \<and> 0 < y) (nn_A c) (nn_A c)) (nn_A c)) (N_A c))"
proof (cases "select (map2 (\<lambda>x y. 0 < x \<and> 0 < y) (nn_A c) (nn_A c)) (nn_A c) = []")
  case True
  then show ?thesis by (simp add: int_arr_div_scal_def pos_arr_Nil)
next
  case False
  let ?sel = "select (map2 (\<lambda>x y. 0 < x \<and> 0 < y) (nn_A c) (nn_A c)) (nn_A c)"
  have pos: "0 < n" if "n \<in> set ?sel" for n
    using that by (rule select_gtr0_pos)
  from False obtain n where n: "n \<in> set ?sel"
    by (cases ?sel) auto
  have "n \<in> set (nn_A c)"
    using n select_subset [of _ "nn_A c"] by blast
  moreover have "0 < n" using n by (rule pos)
  ultimately have ex: "\<exists>n \<in> set (nn_A c). 0 < n" by blast
  have "0 < int_dot (ff c) (nn_A c)"
    using assms(1) ex unfolding wf_Divergence_Compact_def by (intro int_dot_pos) simp_all
  then have "0 < N_A c"
    using assms(1) by (simp add: wf_Divergence_Compact_def)
  then show ?thesis
    using pos by (rule pos_arr_int_div)
qed


lemma Dirichlet_self:
  assumes "wf_Divergence_Compact c" and "0 < a"
  shows "pos_arr (arr_div_scal (int_arr_add_scal (nn_A c) (Some a))
           (fl_add (fl_int (N_A c)) (fl_mul (Some a) (fl_int (sum_list (ff c))))))"
proof (cases "nn_A c = []")
  case True
  then show ?thesis by (simp add: arr_div_scal_def int_arr_add_scal_def pos_arr_Nil)
next
  case False
  have wf: "length (nn_A c) = length (ff c)" "list_all (\<lambda>f. 0 < f) (ff c)"
    "list_all (\<lambda>n. 0 \<le> n) (nn_A c)" "int_dot (ff c) (nn_A c) = N_A c"
    using assms(1) by (simp_all add: wf_Divergence_Compact_def)
  have "ff c \<noteq> []"
    using False wf(1) by auto
  then have "0 < sum_list (ff c)"
    using wf(2) by (rule sum_list_pos_int)
  then have "0 < a * real_of_int (sum_list (ff c))"
    using assms(2) by simp
  moreover have "0 \<le> N_A c"
    using int_dot_nonneg [OF wf(1,2,3)] wf(4) by simp
  ultimately have d: "0 < real_of_int (N_A c) + a * real_of_int (sum_list (ff c))"
    by (simp add: add_nonneg_pos)
  have "pos_arr (arr_div_scal (int_arr_add_scal (nn_A c) (Some a))
           (Some (real_of_int (N_A c) + a * real_of_int (sum_list (ff c)))))"
    using d assms(2) wf(3) by (rule pos_arr_adjusted)
  then show ?thesis
    by (simp add: fl_int_def)
qed


lemma KL_self_dot: "pos_arr h \<Longrightarrow> dot fs (arr_mul h (arr_log (arr_div h h))) = Some 0"
  by (simp add: KL_self_zero dot_zero)

lemma JS_self_dot:
  "pos_arr h \<Longrightarrow>
     fl_mul (Some (1 / 2))
       (dot fs (arr_add
          (arr_mul h (arr_log (arr_div h (scal_mul (Some (1 / 2)) (arr_add h h)))))
          (arr_mul h (arr_log (arr_div h (scal_mul (Some (1 / 2)) (arr_add h h))))))) = Some 0"
  by (simp add: mid_self KL_self_zero arr_add_zero dot_zero)

text \<open>
  Claim C8, as stated, fails for the pseudocounts \<open>a = b = 0\<close>: the unseen category of
  \<open>summary_same\<close> has the adjusted frequency \<open>0\<close> in both experiments, numpy's
  \<open>0 / 0\<close> is \<open>nan\<close>, and so is the estimate.
\<close>

theorem Dirichlet_zero_pseudocount_not_zero:
  "wf_Divergence_Compact summary_same \<and> identical_experiments summary_same \<and>
   Dirichlet summary_same (Some 0) (Some 0) ''Kullback-Leibler'' = Inr None \<and>
   Dirichlet summary_same (Some 0) (Some 0) ''Jensen-Shannon'' = Inr None \<and>
   Dirichlet summary_same (Some 0) (Some 0) ''Kullback-Leibler'' \<noteq> Inr (Some 0)"
  by (simp add: wf_Divergence_Compact_def identical_experiments_def summary_same_def int_dot_def
      Dirichlet_def Let_def arr_defs)

text \<open>
  Positive pseudocounts are not enough for the code itself. It computes the adjusted
  frequency of an unseen category as \<open>(0 + a) / (N + a K)\<close> in double precision, which
  is \<open>0.0\<close> for a pseudocount as small as \<open>2^-1074\<close> (the quotient underflows) and
  for one as large as \<open>1e308\<close> (\<open>a K\<close> overflows to \<open>inf\<close>), and the estimate is
  \<open>nan\<close> again. With 64-bit counts and \<open>2^-900 \<le> a \<le> 2^900\<close> neither happens:
  \<open>nn + a\<close> and \<open>N + a K\<close> lie between \<open>2^-900\<close> and \<open>2^964\<close>, the exact
  adjusted frequencies lie between \<open>2^-964\<close> and \<open>1\<close>, all far inside the range of
  the normal doubles, where every operation has a relative error of at most \<open>2^-53\<close>;
  so the doubles are finite and positive, as the model has them. The two experiments
  being identical, the code computes the same doubles for both, and their quotient is
  exactly \<open>1.0\<close>.
\<close>

lemma pseudocount_bound_pos: "1 / 2 ^ 900 \<le> a \<Longrightarrow> 0 < (a::real)"
proof -
  assume "1 / 2 ^ 900 \<le> a"
  moreover have "(0::real) < 1 / 2 ^ 900"
    by (simp only: zero_less_divide_iff zero_less_one zero_less_power zero_less_numeral simp_thms)
  ultimately show ?thesis by linarith
qed

lemma int_dot_ge_elem:
  "length ns = length fs \<Longrightarrow> list_all (\<lambda>f. 0 < f) fs \<Longrightarrow> list_all (\<lambda>n. 0 \<le> n) ns \<Longrightarrow>
     n \<in> set ns \<Longrightarrow> n \<le> int_dot fs ns"
proof (induction ns fs rule: list_induct2)
  case Nil
  then show ?case by simp
next
  case (Cons m ns f fs)
  have rest: "0 \<le> int_dot fs ns"
    using Cons.hyps Cons.prems(1,2) by (simp add: int_dot_nonneg)
  have fm: "m \<le> f * m"
    using Cons.prems(1,2) by (simp add: mult_le_cancel_right1)
  have m0: "0 \<le> m" using Cons.prems(2) by simp
  show ?case
  proof (cases "n = m")
    case True
    then show ?thesis using fm rest by (simp add: int_dot_def)
  next
    case False
    then have "n \<le> int_dot fs ns"
      using Cons.IH Cons.prems by simp
    moreover have "0 \<le> f * m" using fm m0 by linarith
    ultimately show ?thesis by (simp add: int_dot_def)
  qed
qed

lemma adjusted_frequency_range:
  assumes wf: "wf_Divergence_Compact c"
    and N63: "N_A c < 2 ^ 63" and K63: "K c < 2 ^ 63"
    and lo: "1 / 2 ^ 900 \<le> a"
    and n: "n \<in> set (nn_A c)"
  shows "\<exists>r. adjusted_frequency n (Some a) (N_A c) (K c) = Some r \<and> 1 / 2 ^ 964 \<le> r \<and> r \<le> 1"
proof -
  have w: "length (nn_A c) = length (ff c)" "list_all (\<lambda>f. 0 < f) (ff c)"
    "list_all (\<lambda>n. 0 \<le> n) (nn_A c)" "int_dot (ff c) (nn_A c) = N_A c"
    "sum_list (ff c) = K c"
    using wf by (simp_all add: wf_Divergence_Compact_def)
  have a: "0 < a" using lo by (rule pseudocount_bound_pos)
  have n0: "0 \<le> n" using n w(3) by (simp add: list_all_iff)
  have nN: "n \<le> N_A c" using int_dot_ge_elem [OF w(1,2,3) n] w(4) by simp
  have "ff c \<noteq> []" using n w(1) by auto
  then have K1: "1 \<le> K c" using sum_list_pos_int [OF _ w(2)] w(5) by simp
  define D where "D = real_of_int (N_A c) + a * real_of_int (K c)"
  define P where "P = (2::real) ^ 900"
  define Q where "Q = (2::real) ^ 63"
  have P1: "1 \<le> P" unfolding P_def by (rule one_le_power) simp
  have Q0: "0 < Q" unfolding Q_def by (rule zero_less_power) simp
  have aP: "1 \<le> a * P" using lo unfolding P_def by (simp add: divide_le_eq)
  have "real_of_int (N_A c) < real_of_int (2 ^ 63)"
    using N63 by (simp only: of_int_less_iff)
  then have NQ: "real_of_int (N_A c) \<le> Q" unfolding Q_def by simp
  have "real_of_int (K c) < real_of_int (2 ^ 63)"
    using K63 by (simp only: of_int_less_iff)
  then have KQ: "real_of_int (K c) \<le> Q" unfolding Q_def by simp
  have aK: "a \<le> a * real_of_int (K c)"
    using a K1 by simp
  have D0: "0 < D" using aK a n0 nN unfolding D_def by linarith
  have le1: "(real_of_int n + a) / D \<le> 1"
    using D0 aK nN unfolding D_def by (simp add: divide_le_eq)
  have "1 * Q \<le> (a * P) * Q"
    using aP Q0 by (intro mult_right_mono) simp_all
  then have t1: "real_of_int (N_A c) \<le> a * P * Q" using NQ by simp
  have "1 * Q \<le> P * Q"
    using P1 Q0 by (intro mult_right_mono) simp_all
  then have "real_of_int (K c) \<le> P * Q" using KQ by simp
  then have "a * real_of_int (K c) \<le> a * (P * Q)"
    using a by (intro mult_left_mono) simp_all
  then have "D \<le> a * (P * Q * 2)"
    using t1 unfolding D_def by (simp add: algebra_simps)
  also have "\<dots> \<le> (real_of_int n + a) * (P * Q * 2)"
    using n0 P1 Q0 by (intro mult_right_mono) simp_all
  finally have "D \<le> (real_of_int n + a) * (P * Q * 2)" .
  moreover have "0 < P * Q * 2" using P1 Q0 by simp
  ultimately have "1 / (P * Q * 2) \<le> (real_of_int n + a) / D"
    using D0 by (simp add: field_simps)
  moreover have "(2::real) ^ 964 = P * Q * 2"
    unfolding P_def Q_def
    by (simp only: power_add [symmetric] power_Suc [symmetric] mult.commute [of _ 2]) simp
  ultimately have ge: "1 / 2 ^ 964 \<le> (real_of_int n + a) / D" by (simp only:)
  have "adjusted_frequency n (Some a) (N_A c) (K c) = Some ((real_of_int n + a) / D)"
    using D0 by (simp add: adjusted_frequency_def fl_int_def D_def)
  then show ?thesis using ge le1 by blast
qed

text \<open>
  Claim C8, amended. For a well-formed summary of two identical experiments with counts
  below \<open>2^63\<close>, the Naive estimator returns zero for both measures, and so does the
  Dirichlet estimator for every pair of equal pseudocounts between \<open>2^-900\<close> and
  \<open>2^900\<close>.
\<close>

theorem self_divergence_zero:
  assumes "wf_Divergence_Compact c" and "identical_experiments c"
    and "N_A c < 2 ^ 63" and "K c < 2 ^ 63"
    and "1 / 2 ^ 900 \<le> a" and "a \<le> 2 ^ 900"
    and "measure' = ''Kullback-Leibler'' \<or> measure' = ''Jensen-Shannon''"
  shows "Naive c measure' = Inr (Some 0) \<and>
         Dirichlet c (Some a) (Some a) measure' = Inr (Some 0)"
proof
  have same: "nn_B c = nn_A c" "N_B c = N_A c"
    using assms(2) by (simp_all add: identical_experiments_def)
  have a: "0 < a"
    using assms(5) by (rule pseudocount_bound_pos)
  have "Naive c measure' =
      (if measure' = ''Kullback-Leibler'' then Inr (Some 0)
       else if measure' = ''Jensen-Shannon'' then Inr (Some 0)
       else Inl (Bad_measure In_Naive))"
    unfolding Naive_def Let_def same
    by (simp only: KL_self_dot [OF Naive_self [OF assms(1) same(1)]]
        JS_self_dot [OF Naive_self [OF assms(1) same(1)]])
  then show "Naive c measure' = Inr (Some 0)"
    using assms(7) by auto
  have "Dirichlet c (Some a) (Some a) measure' =
      (if measure' = ''Kullback-Leibler'' then Inr (Some 0)
       else if measure' = ''Jensen-Shannon'' then Inr (Some 0)
       else Inl (Bad_measure In_Dirichlet))"
    unfolding Dirichlet_def Let_def same
    by (simp only: KL_self_dot [OF Dirichlet_self [OF assms(1) a]]
        JS_self_dot [OF Dirichlet_self [OF assms(1) a]])
  then show "Dirichlet c (Some a) (Some a) measure' = Inr (Some 0)"
    using assms(7) by auto
qed

theorem self_divergence_zero_witness:
  "wf_Divergence_Compact summary_same \<and> identical_experiments summary_same \<and>
   N_A summary_same < 2 ^ 63 \<and> K summary_same < 2 ^ 63 \<and>
   (1 / 2 ^ 900 \<le> (1 / 2 :: real)) \<and> ((1 / 2 :: real) \<le> 2 ^ 900) \<and>
   Naive summary_same ''Kullback-Leibler'' = Inr (Some 0) \<and>
   Dirichlet summary_same (Some (1 / 2)) (Some (1 / 2)) ''Kullback-Leibler'' = Inr (Some 0)"
proof -
  have w: "wf_Divergence_Compact summary_same"
    by (simp add: wf_Divergence_Compact_def summary_same_def int_dot_def)
  have i: "identical_experiments summary_same"
    by (simp add: identical_experiments_def summary_same_def)
  have n: "N_A summary_same < 2 ^ 63" and k: "K summary_same < 2 ^ 63"
    by (simp_all add: summary_same_def)
  have lo: "1 / 2 ^ 900 \<le> (1 / 2 :: real)" and hi: "(1 / 2 :: real) \<le> 2 ^ 900"
    by simp_all
  have m: "''Kullback-Leibler'' = ''Kullback-Leibler'' \<or> ''Kullback-Leibler'' = ''Jensen-Shannon''"
    by simp
  show ?thesis
    using w i n k lo hi self_divergence_zero [OF w i n k lo hi m] by blast
qed

section \<open>Exchanging the two experiments\<close>

lemma fl_add_commute: "fl_add x y = fl_add y x"
  by (cases x; cases y) simp_all

lemma arr_add_commute: "arr_add xs ys = arr_add ys xs"
proof (induction xs arbitrary: ys)
  case Nil
  show ?case by (simp add: arr_add_def)
next
  case (Cons x xs)
  then show ?case by (cases ys) (simp_all add: arr_add_def fl_add_commute)
qed

lemma gtr0mask_commute:
  "map2 (\<lambda>x y. 0 < x \<and> 0 < y) ys xs = map2 (\<lambda>x y. (0::int) < x \<and> 0 < y) xs (ys :: int list)"
proof (induction xs arbitrary: ys)
  case Nil
  show ?case by simp
next
  case (Cons x xs)
  then show ?case by (cases ys) auto
qed

lemma Naive_JS_swap:
  "Naive (swap_experiments c) ''Jensen-Shannon'' = Naive c ''Jensen-Shannon''"
proof -
  define mask where "mask = map2 (\<lambda>x y. 0 < x \<and> 0 < y) (nn_A c) (nn_B c)"
  define hA where "hA = int_arr_div_scal (select mask (nn_A c)) (N_A c)"
  define hB where "hB = int_arr_div_scal (select mask (nn_B c)) (N_B c)"
  define mm where "mm = scal_mul (Some (1 / 2)) (arr_add hA hB)"
  have L: "Naive c ''Jensen-Shannon'' =
      Inr (fl_mul (Some (1 / 2)) (dot (select mask (ff c))
        (arr_add (arr_mul hA (arr_log (arr_div hA mm))) (arr_mul hB (arr_log (arr_div hB mm))))))"
    by (simp add: Naive_def Let_def mask_def hA_def hB_def mm_def)
  have R: "Naive (swap_experiments c) ''Jensen-Shannon'' =
      Inr (fl_mul (Some (1 / 2)) (dot (select mask (ff c))
        (arr_add (arr_mul hB (arr_log (arr_div hB (scal_mul (Some (1 / 2)) (arr_add hB hA)))))
                 (arr_mul hA (arr_log (arr_div hA (scal_mul (Some (1 / 2)) (arr_add hB hA))))))))"
    by (simp add: Naive_def Let_def swap_experiments_def mask_def hA_def hB_def
        gtr0mask_commute [of "nn_A c" "nn_B c"])
  show ?thesis
    unfolding L R mm_def
    by (simp only: arr_add_commute [of hB hA]
        arr_add_commute [of "arr_mul hB (arr_log (arr_div hB (scal_mul (Some (1 / 2)) (arr_add hA hB))))"])
qed

lemma Dirichlet_JS_swap:
  "Dirichlet (swap_experiments c) b a ''Jensen-Shannon'' = Dirichlet c a b ''Jensen-Shannon''"
proof -
  define hA where "hA = arr_div_scal (int_arr_add_scal (nn_A c) a)
      (fl_add (fl_int (N_A c)) (fl_mul a (fl_int (sum_list (ff c)))))"
  define hB where "hB = arr_div_scal (int_arr_add_scal (nn_B c) b)
      (fl_add (fl_int (N_B c)) (fl_mul b (fl_int (sum_list (ff c)))))"
  have L: "Dirichlet c a b ''Jensen-Shannon'' =
      Inr (fl_mul (Some (1 / 2)) (dot (ff c)
        (arr_add (arr_mul hA (arr_log (arr_div hA (scal_mul (Some (1 / 2)) (arr_add hA hB)))))
                 (arr_mul hB (arr_log (arr_div hB (scal_mul (Some (1 / 2)) (arr_add hA hB))))))))"
    by (simp add: Dirichlet_def Let_def hA_def hB_def)
  have R: "Dirichlet (swap_experiments c) b a ''Jensen-Shannon'' =
      Inr (fl_mul (Some (1 / 2)) (dot (ff c)
        (arr_add (arr_mul hB (arr_log (arr_div hB (scal_mul (Some (1 / 2)) (arr_add hB hA)))))
                 (arr_mul hA (arr_log (arr_div hA (scal_mul (Some (1 / 2)) (arr_add hB hA))))))))"
    by (simp add: Dirichlet_def Let_def swap_experiments_def hA_def hB_def)
  show ?thesis
    unfolding L R
    by (simp only: arr_add_commute [of hB hA]
        arr_add_commute [of "arr_mul hB (arr_log (arr_div hB (scal_mul (Some (1 / 2)) (arr_add hA hB))))"])
qed

lemma swap_fields:
  "Kobs (compact_A (swap_experiments c)) = Kobs (compact_B c)"
  "Kobs (compact_B (swap_experiments c)) = Kobs (compact_A c)"
  "N_A (swap_experiments c) = N_B c"
  "N_B (swap_experiments c) = N_A c"
  by (simp_all add: swap_experiments_def)

lemma switchboard_JS_swap:
  "switchboard cmw (swap_experiments c) method unit ''Jensen-Shannon'' kw =
   switchboard cmw c method unit ''Jensen-Shannon'' kw"
proof (cases "unit \<in> Some ` set [''ln'', ''log2'', ''log10'']")
  case False
  then show ?thesis
    using switchboard_bad_unit [of unit] by simp
next
  case True
  then obtain u uc where u: "unit = Some u" "unit_Dict u = Some uc"
    using unit_Dict_None_iff by fastforce
  have m: "''Jensen-Shannon'' = ''Kullback-Leibler'' \<or> ''Jensen-Shannon'' = ''Jensen-Shannon''"
    by simp
  consider "method = ''naive''" | "method = ''CMW''" | "method = ''Jeffreys''"
    | "method = ''Laplace''" | "method = ''SG''" | "method = ''minimax''"
    | "method \<notin> set [''naive'', ''CMW'', ''Jeffreys'', ''Laplace'', ''SG'', ''minimax'']"
    by auto
  then show ?thesis
  proof cases
    case 1
    then show ?thesis
      unfolding u 1 by (simp only: switchboard_naive [OF u(2) m] Naive_JS_swap)
  next
    case 2
    then show ?thesis
      unfolding u 2 by (simp only: switchboard_CMW_bad_measure [OF u(2) refl])
  next
    case 3
    then show ?thesis
      unfolding u 3 by (simp only: switchboard_Jeffreys [OF u(2) m] Dirichlet_JS_swap)
  next
    case 4
    then show ?thesis
      unfolding u 4 by (simp only: switchboard_Laplace [OF u(2) m] Dirichlet_JS_swap)
  next
    case 5
    then show ?thesis
      unfolding u 5 by (simp only: switchboard_SG [OF u(2) m] swap_fields Dirichlet_JS_swap)
  next
    case 6
    then show ?thesis
      unfolding u 6 by (simp only: switchboard_minimax [OF u(2) m] swap_fields Dirichlet_JS_swap)
  next
    case 7
    then show ?thesis
      unfolding u by (simp only: switchboard_bad_method [OF u(2) m 7])
  qed
qed

lemma ln8_ln9: "3 * ln (2::real) \<noteq> 2 * ln 3"
proof
  assume eq: "3 * ln (2::real) = 2 * ln 3"
  have a: "ln (8::real) = 3 * ln 2"
    using ln_realpow [of "2::real" 3] by simp
  have b: "ln (9::real) = 2 * ln 3"
    using ln_realpow [of "3::real" 2] by simp
  have "ln (8::real) = ln 9"
    using eq a b by simp
  then show False by simp
qed

lemma ln_half: "ln (1 / 2 :: real) = - ln 2"
  by (simp add: ln_div)

lemma ln_third: "ln (1 / 3 :: real) = - ln 3"
  by (simp add: ln_div)

lemma ln_facts:
  "ln (3 / 4 :: real) = ln 3 - 2 * ln 2"
  "ln (3 / 2 :: real) = ln 3 - ln 2"
  "ln (4 / 3 :: real) = 2 * ln 2 - ln 3"
  "ln (2 / 3 :: real) = ln 2 - ln 3"
proof -
  have 4: "ln (4 :: real) = 2 * ln 2"
    using ln_realpow [of "2::real" 2] by simp
  show "ln (3 / 4 :: real) = ln 3 - 2 * ln 2" "ln (3 / 2 :: real) = ln 3 - ln 2"
    "ln (4 / 3 :: real) = 2 * ln 2 - ln 3" "ln (2 / 3 :: real) = ln 2 - ln 3"
    by (simp_all add: ln_div 4)
qed

lemma ln_3_12_2_19: "12 * ln (3::real) \<noteq> 19 * ln 2"
proof
  assume eq: "12 * ln (3::real) = 19 * ln 2"
  have a: "ln ((3::real) ^ 12) = 12 * ln 3"
    by (simp only: ln_realpow zero_less_numeral)
  have b: "ln ((2::real) ^ 19) = 19 * ln 2"
    by (simp only: ln_realpow zero_less_numeral)
  have "ln ((3::real) ^ 12) = ln (2 ^ 19)"
    using eq a b by (simp only:)
  then have "(3::real) ^ 12 = 2 ^ 19"
    by (simp only: ln_inj_iff zero_less_power zero_less_numeral)
  then show False by simp
qed

text \<open>
  Claim C7, as stated, fails in its second half: the two experiments of \<open>summary_mirror\<close>
  have different empirical distributions, \<open>(1/3, 2/3)\<close> and \<open>(2/3, 1/3)\<close>, and the
  Kullback-Leibler estimates of \<open>Naive\<close> and of \<open>Dirichlet\<close> do not change when the
  experiments are exchanged.
\<close>

theorem Kullback_Leibler_symmetric_on_mirror:
  "nn_A summary_mirror \<noteq> nn_B summary_mirror \<and> N_A summary_mirror = N_B summary_mirror \<and>
   int_arr_div_scal (nn_A summary_mirror) (N_A summary_mirror) \<noteq>
     int_arr_div_scal (nn_B summary_mirror) (N_B summary_mirror) \<and>
   Naive (swap_experiments summary_mirror) ''Kullback-Leibler'' =
     Naive summary_mirror ''Kullback-Leibler'' \<and>
   Dirichlet (swap_experiments summary_mirror) (Some 1) (Some 1) ''Kullback-Leibler'' =
     Dirichlet summary_mirror (Some 1) (Some 1) ''Kullback-Leibler''"
  by (simp add: Naive_def Dirichlet_def swap_experiments_def summary_mirror_def Let_def arr_defs)

text \<open>
  Claim C7, amended. Exchanging the two experiments (and the two pseudocounts with them)
  leaves the Jensen-Shannon result of \<open>Naive\<close>, of \<open>Dirichlet\<close> and of every call of
  the switchboard unchanged. The Kullback-Leibler result is not symmetric in general: it
  changes for \<open>summary_one\<close>, with \<open>Naive\<close> and with \<open>Dirichlet\<close>.
\<close>

theorem Jensen_Shannon_symmetric:
  "Naive (swap_experiments c) ''Jensen-Shannon'' = Naive c ''Jensen-Shannon'' \<and>
   Dirichlet (swap_experiments c) b a ''Jensen-Shannon'' = Dirichlet c a b ''Jensen-Shannon'' \<and>
   switchboard cmw (swap_experiments c) method unit ''Jensen-Shannon'' kw =
     switchboard cmw c method unit ''Jensen-Shannon'' kw \<and>
   Naive (swap_experiments summary_one) ''Kullback-Leibler'' \<noteq>
     Naive summary_one ''Kullback-Leibler'' \<and>
   Dirichlet (swap_experiments summary_one) (Some 1) (Some 1) ''Kullback-Leibler'' \<noteq>
     Dirichlet summary_one (Some 1) (Some 1) ''Kullback-Leibler''"
proof -
  have N1: "Naive summary_one ''Kullback-Leibler'' = Inr (Some (ln (1 / 2) / 2))"
    by (simp add: Naive_def summary_one_def Let_def arr_defs)
  have N2: "Naive (swap_experiments summary_one) ''Kullback-Leibler'' = Inr (Some (ln 2))"
    by (simp add: Naive_def swap_experiments_def summary_one_def Let_def arr_defs)
  have "0 < ln (2::real)"
    by simp
  then have N: "ln (2::real) \<noteq> ln (1 / 2) / 2"
    unfolding ln_half by linarith
  have D1: "Dirichlet summary_one (Some 1) (Some 1) ''Kullback-Leibler'' =
      Inr (Some (ln (3 / 4) / 2 + ln (3 / 2) / 2))"
    by (simp add: Dirichlet_def summary_one_def Let_def arr_defs)
  have D2: "Dirichlet (swap_experiments summary_one) (Some 1) (Some 1) ''Kullback-Leibler'' =
      Inr (Some (2 * ln (4 / 3) / 3 + ln (2 / 3) / 3))"
    by (simp add: Dirichlet_def swap_experiments_def summary_one_def Let_def arr_defs)
  have D: "2 * ln (4 / 3 :: real) / 3 + ln (2 / 3) / 3 \<noteq> ln (3 / 4) / 2 + ln (3 / 2) / 2"
    using ln_3_12_2_19 unfolding ln_facts by (simp add: field_simps)
  show ?thesis
    unfolding N1 N2 D1 D2 using N D
    by (simp only: Naive_JS_swap Dirichlet_JS_swap switchboard_JS_swap) simp
qed

section \<open>A category that the Naive estimator leaves out\<close>

lemma gtr0mask_update:
  "c < length ys \<Longrightarrow> \<not> 0 < ys ! c \<Longrightarrow>
     map2 (\<lambda>x y. 0 < x \<and> 0 < y) (xs[c := v]) ys = map2 (\<lambda>x y. (0::int) < x \<and> (0::int) < y) xs ys"
proof (induction xs arbitrary: c ys)
  case Nil
  show ?case by simp
next
  case (Cons x xs)
  show ?case
  proof (cases ys)
    case Nil
    then show ?thesis by simp
  next
    case (Cons y ys')
    then show ?thesis
      using Cons.prems Cons.IH [of _ ys'] by (cases c) auto
  qed
qed

lemma select_update:
  "(c < length ms \<Longrightarrow> \<not> ms ! c) \<Longrightarrow> select ms (xs[c := v]) = select ms xs"
proof (induction ms xs arbitrary: c rule: select.induct)
  case (1 m ms x xs)
  show ?case
  proof (cases c)
    case 0
    then show ?thesis using "1.prems" by simp
  next
    case (Suc c')
    then show ?thesis using "1.prems" "1.IH" [of c'] by auto
  qed
qed simp_all

lemma gtr0mask_nth:
  "c < length xs \<Longrightarrow> c < length ys \<Longrightarrow>
     map2 (\<lambda>x y. 0 < x \<and> 0 < y) xs ys ! c = (0 < xs ! c \<and> 0 < ys ! c)"
  by simp

lemma Naive_update:
  assumes "c < length (nn_B s)" and "nn_B s ! c = 0"
  shows "Naive (s\<lparr>nn_A := (nn_A s)[c := y]\<rparr>) measure' = Naive s measure'"
proof -
  let ?mask = "map2 (\<lambda>x y. 0 < x \<and> 0 < y) (nn_A s) (nn_B s)"
  have m: "map2 (\<lambda>x y. 0 < x \<and> 0 < y) ((nn_A s)[c := y]) (nn_B s) = ?mask"
    using assms by (intro gtr0mask_update) simp_all
  have "\<not> ?mask ! c" if "c < length ?mask"
    using that assms by simp
  then have sel: "select ?mask ((nn_A s)[c := y]) = select ?mask (nn_A s)"
    by (rule select_update)
  show ?thesis
    by (simp add: Naive_def Let_def m sel)
qed

text \<open>
  Claim C1, as stated, fails: the second category of \<open>summary_one\<close> is seen once in A
  and never in B; \<open>summary_more\<close> differs by its count in A, \<open>2\<close>, with \<open>N_A\<close>
  adjusted from \<open>2\<close> to \<open>3\<close>, and the Naive estimate changes, because the
  frequencies of the other categories are counts over \<open>N_A\<close>.
\<close>

theorem Naive_depends_on_excluded_count:
  "nn_B summary_one ! 1 = 0 \<and> nn_A summary_one ! 1 = 1 \<and>
   summary_more = summary_one
     \<lparr> compact_A := (compact_A summary_one)\<lparr> N := 3, nn := [1, 2] \<rparr>,
       N_A := 3, nn_A := (nn_A summary_one)[1 := 2] \<rparr> \<and>
   Naive summary_one ''Kullback-Leibler'' = Inr (Some (ln (1 / 2) / 2)) \<and>
   Naive summary_more ''Kullback-Leibler'' = Inr (Some (ln (1 / 3) / 3)) \<and>
   Naive summary_one ''Kullback-Leibler'' \<noteq> Naive summary_more ''Kullback-Leibler''"
proof -
  have 1: "Naive summary_one ''Kullback-Leibler'' = Inr (Some (ln (1 / 2) / 2))"
    by (simp add: Naive_def summary_one_def Let_def arr_defs)
  have 2: "Naive summary_more ''Kullback-Leibler'' = Inr (Some (ln (1 / 3) / 3))"
    by (simp add: Naive_def summary_more_def Let_def arr_defs)
  have 3: "ln (1 / 2 :: real) / 2 \<noteq> ln (1 / 3) / 3"
    using ln8_ln9 by (simp add: ln_half ln_third)
  show ?thesis
    unfolding 1 2 using 3 by (simp add: summary_one_def summary_more_def)
qed

text \<open>
  The results of the Dirichlet estimator for two different counts of such a category can
  coincide: with the totals adjusted when experiment B is empty (the frequencies in A are
  then \<open>(1/3, 2/3)\<close> and \<open>(2/3, 1/3)\<close> against \<open>(1/2, 1/2)\<close>), and with the totals
  kept for the counts \<open>1\<close> and \<open>3\<close> of \<open>summary_22\<close>.
\<close>

lemma ln_quarter: "ln (1 / 4 :: real) = 2 * ln (1 / 2)"
  using ln_realpow [of "1 / 2 :: real" 2] by (simp add: power2_eq_square)

lemma Dirichlet_same_for_two_counts:
  "wf_Divergence_Compact summary_B_empty \<and> wf_Divergence_Compact summary_B_empty_more \<and>
   Dirichlet summary_B_empty (Some 1) (Some 1) ''Kullback-Leibler'' =
     Dirichlet summary_B_empty_more (Some 1) (Some 1) ''Kullback-Leibler'' \<and>
   Dirichlet summary_22 (Some 1) (Some 1) ''Kullback-Leibler'' =
     Dirichlet summary_22_recount (Some 1) (Some 1) ''Kullback-Leibler''"
proof -
  have "wf_Divergence_Compact summary_B_empty" "wf_Divergence_Compact summary_B_empty_more"
    by (simp_all add: wf_Divergence_Compact_def summary_B_empty_def summary_B_empty_more_def
        int_dot_def)
  moreover have "Dirichlet summary_B_empty (Some 1) (Some 1) ''Kullback-Leibler'' =
     Dirichlet summary_B_empty_more (Some 1) (Some 1) ''Kullback-Leibler''"
    by (simp add: Dirichlet_def summary_B_empty_def summary_B_empty_more_def Let_def arr_defs)
  moreover have "Dirichlet summary_22 (Some 1) (Some 1) ''Kullback-Leibler'' =
     Dirichlet summary_22_recount (Some 1) (Some 1) ''Kullback-Leibler''"
    by (simp add: Dirichlet_def summary_22_def summary_22_recount_def Let_def arr_defs
        ln_quarter)
  ultimately show ?thesis by simp
qed

lemma ln_9_4: "ln (9 / 4 :: real) = 2 * ln (3 / 2)"
  using ln_realpow [of "3 / 2 :: real" 2] by (simp add: power2_eq_square)

text \<open>
  Claim C1, amended. When a category has the count zero in experiment B, the result of the
  Naive estimator, for either measure, does not depend on the count stored for it in
  \<open>nn_A\<close>, the total \<open>N_A\<close> of the summary being the same. The Dirichlet estimator
  keeps the category: on \<open>summary_one\<close> and \<open>summary_recount\<close>, which differ in this
  count only, its results differ.
\<close>

theorem Naive_ignores_excluded_count:
  assumes "c < length (nn_B s)" and "nn_B s ! c = 0"
  shows "Naive (s\<lparr>nn_A := (nn_A s)[c := y]\<rparr>) measure' = Naive s measure' \<and>
         Dirichlet summary_recount (Some 1) (Some 1) ''Kullback-Leibler'' \<noteq>
           Dirichlet summary_one (Some 1) (Some 1) ''Kullback-Leibler''"
proof
  show "Naive (s\<lparr>nn_A := (nn_A s)[c := y]\<rparr>) measure' = Naive s measure'"
    using assms by (rule Naive_update)
  have 1: "Dirichlet summary_one (Some 1) (Some 1) ''Kullback-Leibler'' =
      Inr (Some (ln (3 / 4) / 2 + ln (3 / 2) / 2))"
    by (simp add: Dirichlet_def summary_one_def Let_def arr_defs)
  have 2: "Dirichlet summary_recount (Some 1) (Some 1) ''Kullback-Leibler'' =
      Inr (Some (ln (3 / 4) / 2 + 3 * ln (9 / 4) / 4))"
    by (simp add: Dirichlet_def summary_one_def summary_recount_def Let_def arr_defs)
  have "0 < ln (3 / 2 :: real)"
    by simp
  then have "3 * ln (9 / 4 :: real) / 4 \<noteq> ln (3 / 2) / 2"
    by (simp add: ln_9_4)
  then show "Dirichlet summary_recount (Some 1) (Some 1) ''Kullback-Leibler'' \<noteq>
      Dirichlet summary_one (Some 1) (Some 1) ''Kullback-Leibler''"
    unfolding 1 2 by simp
qed

theorem Naive_ignores_excluded_count_witness:
  "1 < length (nn_B summary_one) \<and> nn_B summary_one ! 1 = 0 \<and>
   Naive summary_recount ''Kullback-Leibler'' = Inr (Some (ln (1 / 2) / 2)) \<and>
   Naive summary_one ''Kullback-Leibler'' = Inr (Some (ln (1 / 2) / 2))"
proof -
  have l: "1 < length (nn_B summary_one)"
    by (simp add: summary_one_def)
  have z: "nn_B summary_one ! 1 = 0"
    by (simp add: summary_one_def)
  have N: "Naive summary_one ''Kullback-Leibler'' = Inr (Some (ln (1 / 2) / 2))"
    by (simp add: Naive_def summary_one_def Let_def arr_defs)
  show ?thesis
    using l z N Naive_ignores_excluded_count [OF l z, of 2 "''Kullback-Leibler''"]
    by (simp add: summary_recount_def)
qed

end
